theory Spec2Isabelle
  imports Main "HOL-Library.Char_ord" "HOL-Library.List_Lexorder"
begin

section \<open>Strings\<close>

text \<open>
  A Python \<open>str\<close> is modelled as a \<open>string\<close> whose characters are the code points
  0 to 255. The helpers below are the string methods that \<open>main.py\<close> calls, restricted
  to that range.
\<close>

definition is_space :: "char \<Rightarrow> bool" where
  \<comment> \<open>\<open>str.isspace\<close> on one character: TAB, LF, VT, FF, CR, FS, GS, RS, US, space,
      NEL and the no-break space.\<close>
  "is_space c =
     (let n = (of_char c :: nat)
      in (9 \<le> n \<and> n \<le> 13) \<or> (28 \<le> n \<and> n \<le> 32) \<or> n = 133 \<or> n = 160)"

definition lstrip :: "string \<Rightarrow> string" where
  "lstrip s = dropWhile is_space s"

definition rstrip :: "string \<Rightarrow> string" where
  "rstrip s = rev (dropWhile is_space (rev s))"

definition strip :: "string \<Rightarrow> string" where
  \<comment> \<open>\<open>s.strip()\<close>\<close>
  "strip s = rstrip (lstrip s)"

definition lower_char :: "char \<Rightarrow> char" where
  "lower_char c =
     (let n = (of_char c :: nat)
      in if (65 \<le> n \<and> n \<le> 90) \<or> (192 \<le> n \<and> n \<le> 222 \<and> n \<noteq> 215)
         then char_of (n + 32) else c)"

definition lower :: "string \<Rightarrow> string" where
  \<comment> \<open>\<open>s.lower()\<close>\<close>
  "lower s = map lower_char s"

definition replace_char :: "char \<Rightarrow> char \<Rightarrow> string \<Rightarrow> string" where
  \<comment> \<open>\<open>s.replace(a, b)\<close> for one-character \<open>a\<close> and \<open>b\<close>\<close>
  "replace_char a b s = map (\<lambda>c. if c = a then b else c) s"

fun split_on :: "char \<Rightarrow> string \<Rightarrow> string list" where
  \<comment> \<open>\<open>s.split(sep)\<close> for a one-character separator: always at least one piece\<close>
  "split_on sep [] = [[]]"
| "split_on sep (c # cs) =
     (if c = sep then [] # split_on sep cs
      else (case split_on sep cs of
              p # ps \<Rightarrow> (c # p) # ps
            | [] \<Rightarrow> [[c]]))"

definition split_list :: "string \<Rightarrow> string list" where
  \<comment> \<open>\<open>[p.strip() for p in value.replace(";", ",").split(",") if p.strip()]\<close>
      (lines 92, 197 and 199)\<close>
  "split_list s =
     map strip (filter (\<lambda>p. strip p \<noteq> [])
       (split_on (CHR '','') (replace_char (CHR '';'') (CHR '','') s)))"

definition path_join :: "string \<Rightarrow> string \<Rightarrow> string" where
  \<comment> \<open>\<open>os.path.join(a, b)\<close> of \<open>posixpath\<close>\<close>
  "path_join a b =
     (if b \<noteq> [] \<and> hd b = CHR ''/'' then b
      else if a = [] \<or> last a = CHR ''/'' then a @ b
      else a @ ''/'' @ b)"

definition basename :: "string \<Rightarrow> string" where
  \<comment> \<open>\<open>os.path.basename(p)\<close> of \<open>posixpath\<close>\<close>
  "basename p = rev (takeWhile (\<lambda>c. c \<noteq> CHR ''/'') (rev p))"

section \<open>Rows, errors, messages and the environment\<close>

text \<open>
  A row of \<open>csv.DictReader\<close> maps a column name to its value; the value is \<open>None\<close>
  where the line was shorter than the header. Contacts and ledger rows have this type.
\<close>

type_synonym row = "string \<rightharpoonup> string option"

definition get_or :: "row \<Rightarrow> string \<Rightarrow> string \<Rightarrow> string" where
  \<comment> \<open>\<open>row.get(k) or d\<close>: the default also replaces \<open>None\<close> and the empty string\<close>
  "get_or r k d =
     (case r k of
        Some (Some v) \<Rightarrow> (if v = [] then d else v)
      | _ \<Rightarrow> d)"

datatype error =
    ValueError string
  | FileNotFoundError string
  | OSError string
  | SMTPException string
  | RuntimeError string

fun str_of :: "error \<Rightarrow> string" where
  \<comment> \<open>\<open>str(e)\<close>\<close>
  "str_of (ValueError m) = m"
| "str_of (FileNotFoundError m) = m"
| "str_of (OSError m) = m"
| "str_of (SMTPException m) = m"
| "str_of (RuntimeError m) = m"

text \<open>
  An \<open>EmailMessage\<close>: its headers in the order they were set, the plain body of
  \<open>set_content\<close>, the HTML alternative and the attachments (main type, subtype,
  file name, data).
\<close>

record message =
  headers :: "(string \<times> string) list"
  plain :: "string option"
  html :: "string option"
  attachments :: "(string \<times> string \<times> string \<times> string) list"

definition EmailMessage :: message where
  "EmailMessage = \<lparr>headers = [], plain = None, html = None, attachments = []\<rparr>"

text \<open>
  Everything \<open>main.py\<close> reads from outside: the module constants taken from the
  process environment, the file system, the standard library calls whose result depends
  on data (\<open>glob.glob\<close>, \<open>Template.safe_substitute\<close>, \<open>mimetypes.guess_type\<close>, the
  header check of the mail policy), the clock and the SMTP session. A call that can
  raise returns the exception as a value. \<open>send_message\<close> sees the calls made before
  it, so a session may accept one message and refuse the next; \<open>now\<close> is indexed by
  the number of ledger rows present when the clock is read.
\<close>

record env =
  SENDER_NAME :: string
  SENDER_EMAIL :: "string option"
  APP_PASSWORD :: "string option"
  FROM_NAME :: "string option"
  FROM_EMAIL :: "string option"
  REPLY_TO :: "string option"
  TEMPLATE_ROOT :: string
  ATTACH_LANG_DIR_FALLBACK :: bool
  isfile :: "string \<Rightarrow> bool"
  isdir :: "string \<Rightarrow> bool"
  open_text :: "string \<Rightarrow> error + string"
  open_bytes :: "string \<Rightarrow> error + string"
  glob :: "string \<Rightarrow> string list"
  guess_type :: "string \<Rightarrow> string option \<times> string option"
  safe_substitute :: "string \<Rightarrow> (string \<rightharpoonup> string) \<Rightarrow> string"
  header_error :: "string \<Rightarrow> string \<Rightarrow> error option"
  now :: "nat \<Rightarrow> string"
  login :: "error option"
  send_message :: "(message \<times> string list) list \<Rightarrow> message \<Rightarrow> string list \<Rightarrow> error option"

definition or_empty :: "string option \<Rightarrow> string" where
  \<comment> \<open>\<open>v or ""\<close>\<close>
  "or_empty v = (case v of None \<Rightarrow> [] | Some s \<Rightarrow> s)"

definition DEFAULTS :: "env \<Rightarrow> (string \<rightharpoonup> string)" where
  "DEFAULTS env =
     [''from_name'' \<mapsto> (case FROM_NAME env of None \<Rightarrow> SENDER_NAME env | Some v \<Rightarrow> v),
      ''from_email'' \<mapsto> (case FROM_EMAIL env of None \<Rightarrow> or_empty (SENDER_EMAIL env) | Some v \<Rightarrow> v),
      ''reply_to'' \<mapsto> (case REPLY_TO env of None \<Rightarrow> or_empty (SENDER_EMAIL env) | Some v \<Rightarrow> v)]"

definition read_text :: "env \<Rightarrow> string \<Rightarrow> error + string" where
  "read_text env path = open_text env path"

definition render :: "env \<Rightarrow> string \<Rightarrow> (string \<rightharpoonup> string) \<Rightarrow> string" where
  "render env text mapping = safe_substitute env text mapping"

section \<open>Template resolution\<close>

definition template_paths :: "env \<Rightarrow> string \<Rightarrow> row \<Rightarrow> string \<times> string \<times> string \<times> string" where
  \<comment> \<open>lines 63 to 67 of \<open>load_templates\<close>: the language and the three paths\<close>
  "template_paths env lang row =
     (let lang = lower (strip (if lang = [] then ''en'' else lang));
          lang_dir = path_join (TEMPLATE_ROOT env) lang;
          subj_path = strip (get_or row ''subject_file'' (path_join lang_dir ''subject.txt''));
          body_txt = strip (get_or row ''body_file'' (path_join lang_dir ''body.txt''));
          body_html = strip (get_or row ''body_html_file'' (path_join lang_dir ''body.html''))
      in (lang, subj_path, body_txt, body_html))"

definition load_templates ::
  "env \<Rightarrow> string \<Rightarrow> row \<Rightarrow> error + (string \<times> string \<times> string option \<times> string)" where
  "load_templates env lang row =
     (case template_paths env lang row of
        (lang, subj_path, body_txt, body_html) \<Rightarrow>
          if \<not> isfile env subj_path
          then Inl (FileNotFoundError (''Missing subject template: '' @ subj_path))
          else if \<not> isfile env body_txt
          then Inl (FileNotFoundError (''Missing body template: '' @ body_txt))
          else (case read_text env subj_path of
                  Inl e \<Rightarrow> Inl e
                | Inr subject_text \<Rightarrow>
                    (case read_text env body_txt of
                       Inl e \<Rightarrow> Inl e
                     | Inr body_text \<Rightarrow>
                         if isfile env body_html
                         then (case read_text env body_html of
                                 Inl e \<Rightarrow> Inl e
                               | Inr t \<Rightarrow>
                                   (let candidate = strip t
                                    in Inr (subject_text, body_text,
                                            (if candidate \<noteq> [] then Some candidate else None),
                                            lang)))
                         else Inr (subject_text, body_text, None, lang))))"

section \<open>Attachments\<close>

definition attach_file :: "env \<Rightarrow> message \<Rightarrow> string \<Rightarrow> error + message" where
  "attach_file env msg path =
     (case guess_type env path of
        (ctype, encoding) \<Rightarrow>
          (let ctype = (case ctype of
                          None \<Rightarrow> ''application/octet-stream''
                        | Some t \<Rightarrow> if encoding \<noteq> None then ''application/octet-stream'' else t)
           in if CHR ''/'' \<notin> set ctype
              then Inl (ValueError ''not enough values to unpack (expected 2, got 1)'')
              else (let maintype = takeWhile (\<lambda>c. c \<noteq> CHR ''/'') ctype;
                        subtype = tl (dropWhile (\<lambda>c. c \<noteq> CHR ''/'') ctype)
                    in case open_bytes env path of
                         Inl e \<Rightarrow> Inl e
                       | Inr data \<Rightarrow>
                           Inr (msg\<lparr>attachments :=
                                  attachments msg @ [(maintype, subtype, basename path, data)]\<rparr>))))"

fun uniq_loop :: "string list \<Rightarrow> string list \<Rightarrow> string set \<Rightarrow> string list" where
  \<comment> \<open>lines 102 to 106: the loop over \<open>files\<close>, with \<open>uniq\<close> and \<open>seen\<close>\<close>
  "uniq_loop [] uniq seen = uniq"
| "uniq_loop (f # fs) uniq seen =
     (if f \<notin> seen then uniq_loop fs (uniq @ [f]) (insert f seen)
      else uniq_loop fs uniq seen)"

definition collect_files :: "env \<Rightarrow> string list \<Rightarrow> string list" where
  \<comment> \<open>lines 93 to 99: the loop over the patterns, extending \<open>files\<close>\<close>
  "collect_files env parts =
     foldl (\<lambda>files pat.
              (let matches = sort (glob env pat)
               in if matches \<noteq> [] then files @ filter (isfile env) matches else files))
           [] parts"

definition expand_attachments :: "env \<Rightarrow> string \<Rightarrow> string list" where
  "expand_attachments env v =
     (if v = [] then []
      else (let parts = split_list v;
                files = collect_files env parts
            in uniq_loop files [] {}))"

definition resolve_files :: "env \<Rightarrow> string \<Rightarrow> row \<Rightarrow> string list" where
  \<comment> \<open>lines 185 to 189 of \<open>build_message\<close>\<close>
  "resolve_files env lang row =
     (let files = expand_attachments env (get_or row ''attachments'' [])
      in if files = [] \<and> ATTACH_LANG_DIR_FALLBACK env
         then (let lang_dir = path_join ''attachments'' lang
               in if isdir env lang_dir
                  then sort (filter (isfile env) (glob env (path_join lang_dir ''*'')))
                  else files)
         else files)"

fun attach_all :: "env \<Rightarrow> message \<Rightarrow> string list \<Rightarrow> message" where
  \<comment> \<open>lines 190 to 194: a file that cannot be attached is skipped with a warning\<close>
  "attach_all env msg [] = msg"
| "attach_all env msg (path # paths) =
     (case attach_file env msg path of
        Inl e \<Rightarrow> attach_all env msg paths
      | Inr msg' \<Rightarrow> attach_all env msg' paths)"

section \<open>Composition\<close>

definition set_header :: "env \<Rightarrow> message \<Rightarrow> string \<Rightarrow> string \<Rightarrow> error + message" where
  \<comment> \<open>\<open>msg[name] = v\<close>: the mail policy may refuse the value\<close>
  "set_header env msg name v =
     (case header_error env name v of
        Some e \<Rightarrow> Inl e
      | None \<Rightarrow> Inr (msg\<lparr>headers := headers msg @ [(name, v)]\<rparr>))"

definition del_header :: "message \<Rightarrow> string \<Rightarrow> message" where
  \<comment> \<open>\<open>del msg[name]\<close>: every header of that name, compared without case\<close>
  "del_header msg name =
     msg\<lparr>headers := filter (\<lambda>(k, v). lower k \<noteq> lower name) (headers msg)\<rparr>"

definition set_optional :: "env \<Rightarrow> row \<Rightarrow> string \<Rightarrow> string \<Rightarrow> message \<Rightarrow> error + message" where
  \<comment> \<open>\<open>if row.get(field): msg[name] = row[field]\<close> (lines 176 to 179)\<close>
  "set_optional env row field name msg =
     (if get_or row field [] \<noteq> [] then set_header env msg name (get_or row field [])
      else Inr msg)"

definition set_headers :: "env \<Rightarrow> row \<Rightarrow> string \<Rightarrow> string \<Rightarrow> error + message" where
  \<comment> \<open>lines 172 to 181\<close>
  "set_headers env row subject to_addr =
     (case set_header env EmailMessage ''Subject'' subject of
        Inl e \<Rightarrow> Inl e
      | Inr m1 \<Rightarrow>
     (case set_header env m1 ''From''
             (SENDER_NAME env @ '' <'' @
              (case SENDER_EMAIL env of None \<Rightarrow> ''None'' | Some a \<Rightarrow> a) @ ''>'') of
        Inl e \<Rightarrow> Inl e
      | Inr m2 \<Rightarrow>
     (case set_header env m2 ''To'' to_addr of
        Inl e \<Rightarrow> Inl e
      | Inr m3 \<Rightarrow>
     (case set_optional env row ''cc'' ''Cc'' m3 of
        Inl e \<Rightarrow> Inl e
      | Inr m4 \<Rightarrow>
     (case set_optional env row ''bcc'' ''Bcc'' m4 of
        Inl e \<Rightarrow> Inl e
      | Inr m5 \<Rightarrow>
          (case DEFAULTS env ''reply_to'' of
             Some r \<Rightarrow> if r \<noteq> [] then set_header env m5 ''Reply-To'' r else Inr m5
           | None \<Rightarrow> Inr m5))))))"

definition substitution :: "env \<Rightarrow> row \<Rightarrow> (string \<rightharpoonup> string)" where
  \<comment> \<open>line 169: the defaults, overlaid by every field of the row\<close>
  "substitution env row =
     (\<lambda>k. case row k of
             Some v \<Rightarrow> Some (or_empty v)
           | None \<Rightarrow> DEFAULTS env k)"

definition build_message :: "env \<Rightarrow> row \<Rightarrow> error + (message \<times> string \<times> string list)" where
  "build_message env row =
     (let lang = lower (strip (get_or row ''lang'' ''en''));
          to_addr = strip (get_or row ''email'' [])
      in if to_addr = [] \<or> CHR ''@'' \<notin> set to_addr
         then Inl (ValueError (''Invalid recipient: '' @ to_addr))
         else
          (case load_templates env lang row of
             Inl e \<Rightarrow> Inl e
           | Inr (subject_tpl, body_txt, body_html, lang) \<Rightarrow>
               (let mapping = substitution env row;
                    subject = replace_char (CHR 0x0A) (CHR '' '') (strip (render env subject_tpl mapping));
                    body_text = render env body_txt mapping
                in case set_headers env row subject to_addr of
                     Inl e \<Rightarrow> Inl e
                   | Inr msg \<Rightarrow>
                       (let msg = msg\<lparr>plain := Some body_text\<rparr>;
                            msg = (case body_html of
                                     Some h \<Rightarrow>
                                       if h \<noteq> [] then msg\<lparr>html := Some (render env h mapping)\<rparr>
                                       else msg
                                   | None \<Rightarrow> msg);
                            files = resolve_files env lang row;
                            msg = attach_all env msg files;
                            recipients = [to_addr]
                              @ (if get_or row ''cc'' [] \<noteq> [] then split_list (get_or row ''cc'' []) else [])
                              @ (if get_or row ''bcc'' [] \<noteq> [] then split_list (get_or row ''bcc'' []) else []);
                            msg = (if get_or row ''bcc'' [] \<noteq> [] then del_header msg ''Bcc'' else msg)
                        in Inr (msg, subject, recipients)))))"

section \<open>The delivery ledger\<close>

text \<open>
  The content of \<open>sent.csv\<close> is the list of its rows in file order; a missing file and
  a file holding only the header both read as the empty list. Writing a row and reading
  it back is taken to return the row (the \<open>csv\<close> module's quoting).
\<close>

definition read_sent_index :: "row list \<Rightarrow> (string \<rightharpoonup> row)" where
  "read_sent_index sent_csv =
     foldl (\<lambda>idx row. idx(strip (get_or row ''email'' []) \<mapsto> row)) Map.empty sent_csv"

definition already_sent :: "(string \<rightharpoonup> row) \<Rightarrow> string \<Rightarrow> bool" where
  \<comment> \<open>line 233, as the membership test \<open>e in already_sent\<close>\<close>
  "already_sent sent_idx e =
     (case sent_idx e of
        Some rec \<Rightarrow> rec ''status'' = Some (Some ''success'')
      | None \<Rightarrow> False)"

definition append_sent_record ::
  "env \<Rightarrow> row \<Rightarrow> string \<Rightarrow> string \<Rightarrow> string \<Rightarrow> row list \<Rightarrow> row list" where
  "append_sent_record env row subject status err sent_csv =
     sent_csv @
     [[''time'' \<mapsto> Some (now env (length sent_csv)),
       ''email'' \<mapsto> Some (strip (get_or row ''email'' [])),
       ''name'' \<mapsto> Some (strip (get_or row ''name'' [])),
       ''lang'' \<mapsto> Some (strip (get_or row ''lang'' [])),
       ''subject'' \<mapsto> Some subject,
       ''status'' \<mapsto> Some status,
       ''error'' \<mapsto> Some err]]"

section \<open>The batch dispatcher\<close>

text \<open>
  The state of one run of \<open>send_batch\<close> (lines 272 to 297): the ledger file, every call
  of \<open>server.send_message\<close> made so far (the message and its recipient list, accepted
  or not) and the counter \<open>sent\<close>. Appending to the ledger is taken to succeed. The
  log lines, the pause after a send and the dashboard change none of the three. The
  branch for \<open>dry_run=True\<close> (lines 234 to 268) writes preview files, never calls the
  transport and never appends to the ledger; it is left out.
\<close>

record run_state =
  ledger :: "row list"
  transport_calls :: "(message \<times> string list) list"
  sent :: nat

definition send_batch_body ::
  "env \<Rightarrow> bool \<Rightarrow> int option \<Rightarrow> (string \<Rightarrow> bool) \<Rightarrow> row \<Rightarrow> run_state \<Rightarrow> run_state \<times> bool" where
  \<comment> \<open>lines 276 to 296, the body of the loop; the flag says that \<open>break\<close> was reached\<close>
  "send_batch_body env resend limit sent_before row st =
     (let to_addr = strip (get_or row ''email'' [])
      in if to_addr = [] \<or> CHR ''@'' \<notin> set to_addr then (st, False)
         else if \<not> resend \<and> sent_before to_addr then (st, False)
         else
          (case build_message env row of
             Inl e \<Rightarrow>
               (st\<lparr>ledger := append_sent_record env row [] ''failed'' (str_of e) (ledger st)\<rparr>,
                False)
           | Inr (msg, subject, recipients) \<Rightarrow>
               (let answer = send_message env (transport_calls st) msg recipients;
                    st = st\<lparr>transport_calls := transport_calls st @ [(msg, recipients)]\<rparr>
                in case answer of
                     Some e \<Rightarrow>
                       (st\<lparr>ledger :=
                            append_sent_record env row subject ''failed'' (str_of e) (ledger st)\<rparr>,
                        False)
                   | None \<Rightarrow>
                       (let st = st\<lparr>sent := sent st + 1\<rparr>;
                            st = st\<lparr>ledger :=
                                   append_sent_record env row subject ''success'' [] (ledger st)\<rparr>
                        in (st, (case limit of
                                   None \<Rightarrow> False
                                 | Some l \<Rightarrow> int (sent st) \<ge> l))))))"

fun send_batch_loop ::
  "env \<Rightarrow> bool \<Rightarrow> int option \<Rightarrow> (string \<Rightarrow> bool) \<Rightarrow> row list \<Rightarrow> run_state \<Rightarrow> run_state" where
  "send_batch_loop env resend limit sent_before [] st = st"
| "send_batch_loop env resend limit sent_before (row # rows) st =
     (case send_batch_body env resend limit sent_before row st of
        (st', stop) \<Rightarrow>
          if stop then st' else send_batch_loop env resend limit sent_before rows st')"

definition missing_credentials :: "env \<Rightarrow> string list" where
  \<comment> \<open>line 228\<close>
  "missing_credentials env =
     (if or_empty (SENDER_EMAIL env) = [] then [''SENDER_EMAIL''] else [])
     @ (if or_empty (APP_PASSWORD env) = [] then [''APP_PASSWORD''] else [])"

fun join_comma :: "string list \<Rightarrow> string" where
  \<comment> \<open>\<open>", ".join(xs)\<close>\<close>
  "join_comma [] = []"
| "join_comma [x] = x"
| "join_comma (x # y # ys) = x @ '', '' @ join_comma (y # ys)"

definition send_batch ::
  "env \<Rightarrow> bool \<Rightarrow> int option \<Rightarrow> row list \<Rightarrow> row list \<Rightarrow> error + run_state" where
  \<comment> \<open>\<open>send_batch\<close> with \<open>dry_run=False\<close>, from the contacts and the ledger file it reads\<close>
  "send_batch env resend limit contacts sent_csv =
     (let missing = missing_credentials env
      in if missing \<noteq> [] then Inl (RuntimeError (''Missing env vars: '' @ join_comma missing))
         else (let rows = contacts;
                   sent_idx = read_sent_index sent_csv
               in case login env of
                    Some e \<Rightarrow> Inl e
                  | None \<Rightarrow>
                      Inr (send_batch_loop env resend limit (already_sent sent_idx) rows
                             \<lparr>ledger = sent_csv, transport_calls = [], sent = 0\<rparr>)))"

section \<open>Notions used to state the properties\<close>

definition email_key :: "row \<Rightarrow> string" where
  \<comment> \<open>the trimmed address: the key of the ledger index and of the skip test\<close>
  "email_key row = strip (get_or row ''email'' [])"

definition well_formed :: "row \<Rightarrow> bool" where
  \<comment> \<open>the negation of the test of lines 166, 240 and 277\<close>
  "well_formed row = (email_key row \<noteq> [] \<and> CHR ''@'' \<in> set (email_key row))"

definition eligible :: "(string \<Rightarrow> bool) \<Rightarrow> row \<Rightarrow> bool" where
  \<comment> \<open>a well-formed recipient that the index does not report as delivered\<close>
  "eligible sent_before row = (well_formed row \<and> \<not> sent_before (email_key row))"

definition composes :: "env \<Rightarrow> row \<Rightarrow> bool" where
  \<comment> \<open>\<open>build_message\<close> returns\<close>
  "composes env row = (case build_message env row of Inl e \<Rightarrow> False | Inr m \<Rightarrow> True)"


fun rows_visited ::
  "env \<Rightarrow> bool \<Rightarrow> int option \<Rightarrow> (string \<Rightarrow> bool) \<Rightarrow> row list \<Rightarrow> run_state \<Rightarrow> nat" where
  \<comment> \<open>how many rows the loop of \<open>send_batch\<close> takes from the list before it ends\<close>
  "rows_visited env resend limit sent_before [] st = 0"
| "rows_visited env resend limit sent_before (row # rows) st =
     (case send_batch_body env resend limit sent_before row st of
        (st', stop) \<Rightarrow>
          if stop then 1 else Suc (rows_visited env resend limit sent_before rows st'))"


fun first_seen :: "'a list \<Rightarrow> 'a list" where
  \<comment> \<open>deduplication that keeps the first occurrence of every element\<close>
  "first_seen [] = []"
| "first_seen (x # xs) = x # first_seen (filter (\<lambda>y. y \<noteq> x) xs)"

definition matched_files :: "env \<Rightarrow> string \<Rightarrow> string list" where
  \<comment> \<open>the matches of each pattern, sorted, kept when they are regular files, in pattern
      order\<close>
  "matched_files env v =
     concat (map (\<lambda>pat. filter (isfile env) (sort (glob env pat))) (split_list v))"

section \<open>A sample installation\<close>

text \<open>
  One environment on which the definitions are run: templates for \<open>en\<close> only, the
  file \<open>a.txt\<close> in the working directory, two files and a subdirectory in
  \<open>attachments/en\<close>, templates without placeholders (so substitution returns them
  unchanged), a mail policy that refuses a header value holding a carriage return, and
  a relay that refuses one address.
\<close>

definition demo_env :: env where
  "demo_env =
     \<lparr>SENDER_NAME = ''Bot'', SENDER_EMAIL = Some ''bot@x.org'', APP_PASSWORD = Some ''pw'',
      FROM_NAME = None, FROM_EMAIL = None, REPLY_TO = None,
      TEMPLATE_ROOT = ''templates'', ATTACH_LANG_DIR_FALLBACK = True,
      isfile = (\<lambda>p. p \<in> set [''templates/en/subject.txt'', ''templates/en/body.txt'',
                             ''a.txt'', ''./a.txt'',
                             ''attachments/en/b.pdf'', ''attachments/en/a.pdf'']),
      isdir = (\<lambda>p. p \<in> set [''attachments'', ''attachments/en'', ''attachments/en/old'',
                            ''templates'', ''templates/en'']),
      open_text = (\<lambda>p. if p = ''templates/en/subject.txt'' then Inr ''Hello''
                        else if p = ''templates/en/body.txt'' then Inr ''Hi there''
                        else Inl (OSError p)),
      open_bytes = (\<lambda>p. Inr ''data''),
      glob = (\<lambda>pat. if pat = ''a.txt'' then [''a.txt'']
                     else if pat = ''./a.txt'' then [''./a.txt'']
                     else if pat = ''*.txt'' then [''a.txt'']
                     else if pat = ''attachments/en/*''
                     then [''attachments/en/old'', ''attachments/en/b.pdf'', ''attachments/en/a.pdf'']
                     else []),
      guess_type = (\<lambda>p. (None, None)),
      safe_substitute = (\<lambda>t m. t),
      header_error =
        (\<lambda>n v. if CHR 0x0D \<in> set v
               then Some (ValueError
                 ''Header values may not contain linefeed or carriage return characters'')
               else None),
      now = (\<lambda>n. ''2025-09-13T19:00:00''),
      login = None,
      send_message = (\<lambda>calls msg rcpts. if ''refused@x.org'' \<in> set rcpts
                                         then Some (SMTPException ''Recipient refused'')
                                         else None)\<rparr>"



definition ana :: row where
  "ana = [''email'' \<mapsto> Some '' ana@x.org '', ''name'' \<mapsto> Some ''Ana'']"

definition bob :: row where
  "bob = [''email'' \<mapsto> Some ''bob@x.org'', ''lang'' \<mapsto> Some ''  '',
          ''cc'' \<mapsto> Some ''team@x.org'', ''bcc'' \<mapsto> Some ''boss@x.org; audit@x.org '']"

definition bad :: row where
  "bad = [''email'' \<mapsto> Some ''bad'', ''name'' \<mapsto> Some ''Nobody'']"



definition event :: "string \<Rightarrow> string \<Rightarrow> row" where
  \<comment> \<open>a ledger row, of which only the address and the status matter here\<close>
  "event email status =
     [''time'' \<mapsto> Some ''2025-09-12T19:00:00'', ''email'' \<mapsto> Some email, ''name'' \<mapsto> Some [],
      ''lang'' \<mapsto> Some [], ''subject'' \<mapsto> Some ''Hello'', ''status'' \<mapsto> Some status,
      ''error'' \<mapsto> Some []]"



definition retry_ledger :: "row list" where
  \<comment> \<open>a success for \<open>ana\<close> followed by a failure\<close>
  "retry_ledger = [event ''ana@x.org'' ''success'', event ''ana@x.org'' ''failed'']"

definition fresh_run :: run_state where
  "fresh_run = \<lparr>ledger = [], transport_calls = [], sent = 0\<rparr>"

section \<open>Attachment resolution\<close>

lemma collect_files_acc:
  "foldl (\<lambda>files pat.
            (let matches = sort (glob env pat)
             in if matches \<noteq> [] then files @ filter (isfile env) matches else files))
         acc parts
   = acc @ concat (map (\<lambda>pat. filter (isfile env) (sort (glob env pat))) parts)"
  by (induction parts arbitrary: acc) (auto simp: Let_def)

lemma collect_files_matched:
  "collect_files env (split_list v) = matched_files env v"
  unfolding collect_files_def matched_files_def by (simp add: collect_files_acc)

lemma uniq_loop_first_seen:
  "uniq_loop fs uniq (set uniq) = uniq @ first_seen (filter (\<lambda>f. f \<notin> set uniq) fs)"
proof (induction fs arbitrary: uniq)
  case Nil
  then show ?case by simp
next
  case (Cons f fs)
  show ?case
  proof (cases "f \<in> set uniq")
    case True
    then show ?thesis using Cons.IH [of uniq] by simp
  next
    case False
    have "insert f (set uniq) = set (uniq @ [f])" by simp
    then have "uniq_loop (f # fs) uniq (set uniq) = uniq_loop fs (uniq @ [f]) (set (uniq @ [f]))"
      using False by simp
    also have "\<dots> = (uniq @ [f]) @ first_seen (filter (\<lambda>g. g \<notin> set (uniq @ [f])) fs)"
      by (rule Cons.IH)
    also have "filter (\<lambda>g. g \<notin> set (uniq @ [f])) fs
               = filter (\<lambda>y. y \<noteq> f) (filter (\<lambda>g. g \<notin> set uniq) fs)"
      by (auto intro: filter_cong)
    finally show ?thesis using False by simp
  qed
qed

lemma set_first_seen: "set (first_seen xs) = set xs"
  by (induction xs rule: first_seen.induct) auto

lemma distinct_first_seen: "distinct (first_seen xs)"
  by (induction xs rule: first_seen.induct) (auto simp: set_first_seen)

lemma first_seen_snoc:
  "first_seen (xs @ [x]) = first_seen xs @ (if x \<in> set xs then [] else [x])"
  by (induction xs rule: first_seen.induct) auto

lemma first_seen_positions:
  "first_seen xs
   = map (\<lambda>i. xs ! i) (filter (\<lambda>i. xs ! i \<notin> set (take i xs)) [0..<length xs])"
proof (induction xs rule: rev_induct)
  case Nil
  then show ?case by simp
next
  case (snoc x xs)
  have "filter (\<lambda>i. (xs @ [x]) ! i \<notin> set (take i (xs @ [x]))) [0..<length xs]
        = filter (\<lambda>i. xs ! i \<notin> set (take i xs)) [0..<length xs]"
    by (rule filter_cong) (auto simp: nth_append)
  moreover have
    "map (\<lambda>i. (xs @ [x]) ! i) (filter (\<lambda>i. xs ! i \<notin> set (take i xs)) [0..<length xs])
     = map (\<lambda>i. xs ! i) (filter (\<lambda>i. xs ! i \<notin> set (take i xs)) [0..<length xs])"
    by (rule map_cong) (auto simp: nth_append)
  ultimately show ?case using snoc by (simp add: first_seen_snoc)
qed

lemma split_list_Nil: "split_list [] = []"
  by (simp add: split_list_def replace_char_def strip_def lstrip_def rstrip_def)

lemma expand_attachments_eq:
  "expand_attachments env v = first_seen (matched_files env v)"
proof (cases "v = []")
  case True
  then show ?thesis by (simp add: expand_attachments_def matched_files_def split_list_Nil)
next
  case False
  then show ?thesis
    using uniq_loop_first_seen [of "collect_files env (split_list v)" "[]"]
    by (simp add: expand_attachments_def collect_files_matched)
qed

lemma concat_skip_empty:
  "concat (map f (filter (\<lambda>x. g x \<noteq> []) xs)) = concat (map f xs)"
  if "\<And>x. g x = [] \<Longrightarrow> f x = []"
  using that by (induction xs) auto

text \<open>
  C8. For every pattern string, \<open>expand_attachments\<close> returns the matches of each pattern
  (sorted, kept when they are regular files), concatenated in pattern order and then
  deduplicated keeping first occurrences: the result has no duplicate, loses no path, its
  entries are the entries of the concatenation at the positions where a path occurs for
  the first time, in that order, and the patterns that match nothing can be left out
  without changing the concatenation. The function has no error result.
\<close>

theorem expand_attachments_first_seen:
  "expand_attachments env v = first_seen (matched_files env v)
   \<and> distinct (expand_attachments env v)
   \<and> set (expand_attachments env v) = set (matched_files env v)
   \<and> expand_attachments env v
       = map (\<lambda>i. matched_files env v ! i)
           (filter (\<lambda>i. matched_files env v ! i \<notin> set (take i (matched_files env v)))
              [0..<length (matched_files env v)])
   \<and> matched_files env v
       = concat (map (\<lambda>pat. filter (isfile env) (sort (glob env pat)))
                   (filter (\<lambda>pat. glob env pat \<noteq> []) (split_list v)))"
proof -
  have positions: "expand_attachments env v
        = map (\<lambda>i. matched_files env v ! i)
            (filter (\<lambda>i. matched_files env v ! i \<notin> set (take i (matched_files env v)))
               [0..<length (matched_files env v)])"
    unfolding expand_attachments_eq by (rule first_seen_positions)
  have skip: "matched_files env v
     = concat (map (\<lambda>pat. filter (isfile env) (sort (glob env pat)))
                 (filter (\<lambda>pat. glob env pat \<noteq> []) (split_list v)))"
    unfolding matched_files_def by (rule concat_skip_empty [symmetric]) simp
  have nodup: "distinct (expand_attachments env v)"
    by (simp add: expand_attachments_eq distinct_first_seen)
  have same: "set (expand_attachments env v) = set (matched_files env v)"
    by (simp add: expand_attachments_eq set_first_seen)
  from expand_attachments_eq nodup same positions skip show ?thesis
    by (intro conjI)
qed

theorem expand_attachments_first_seen_witness:
  "matched_files demo_env ''a.txt; *.txt, none*'' = [''a.txt'', ''a.txt'']
   \<and> expand_attachments demo_env ''a.txt; *.txt, none*'' = [''a.txt'']"
proof -
  have m: "matched_files demo_env ''a.txt; *.txt, none*'' = [''a.txt'', ''a.txt'']"
    by code_simp
  have "expand_attachments demo_env ''a.txt; *.txt, none*''
        = first_seen (matched_files demo_env ''a.txt; *.txt, none*'')"
    using expand_attachments_first_seen [of demo_env "''a.txt; *.txt, none*''"] by simp
  then show ?thesis using m by simp
qed

text \<open>
  C10. Deduplication compares path strings. When one pattern matches a regular file
  under the name \<open>p\<close> and a second pattern matches it under the name \<open>./p\<close>, both
  names stay in the resolved list, so the file is attached twice.
\<close>

theorem expand_attachments_two_spellings:
  assumes "split_list v = [pat1, pat2]"
    and "glob env pat1 = [p]" and "glob env pat2 = [''./'' @ p]"
    and "isfile env p" and "isfile env (''./'' @ p)"
  shows "expand_attachments env v = [p, ''./'' @ p]"
proof -
  have "matched_files env v = [p, ''./'' @ p]"
    using assms by (simp add: matched_files_def)
  moreover have "p \<noteq> ''./'' @ p"
    by (metis append_self_conv2 list.distinct(1))
  ultimately show ?thesis by (simp add: expand_attachments_eq)
qed

theorem expand_attachments_two_spellings_witness:
  "expand_attachments demo_env ''a.txt, ./a.txt'' = [''a.txt'', ''./a.txt'']"
proof -
  have "split_list ''a.txt, ./a.txt'' = [''a.txt'', ''./a.txt'']" by code_simp
  moreover have "glob demo_env ''a.txt'' = [''a.txt'']" by code_simp
  moreover have "glob demo_env ''./a.txt'' = [''./'' @ ''a.txt'']" by code_simp
  moreover have "isfile demo_env ''a.txt''" by code_simp
  moreover have "isfile demo_env (''./'' @ ''a.txt'')" by code_simp
  ultimately show ?thesis
    using expand_attachments_two_spellings
      [of "''a.txt, ./a.txt''" "''a.txt''" "''./a.txt''" demo_env "''a.txt''"]
    by simp
qed

section \<open>The loop of the dispatcher\<close>

lemma strip_Nil: "strip [] = []"
  by (simp add: strip_def lstrip_def rstrip_def)

lemma get_or_absent: "r k = None \<or> r k = Some None \<Longrightarrow> get_or r k d = d"
  by (auto simp: get_or_def)

lemma well_formed_iff:
  "well_formed row \<longleftrightarrow>
     strip (get_or row ''email'' []) \<noteq> [] \<and> CHR ''@'' \<in> set (strip (get_or row ''email'' []))"
  by (simp add: well_formed_def email_key_def)

lemma build_message_invalid:
  "\<not> well_formed row \<Longrightarrow>
     build_message env row = Inl (ValueError (''Invalid recipient: '' @ email_key row))"
  by (auto simp: build_message_def well_formed_def email_key_def Let_def)

lemma body_invalid:
  "\<not> well_formed row \<Longrightarrow> send_batch_body env resend limit sb row st = (st, False)"
  by (auto simp: send_batch_body_def well_formed_def email_key_def Let_def)

lemma body_skipped:
  "\<not> resend \<Longrightarrow> sb (email_key row) \<Longrightarrow>
     send_batch_body env resend limit sb row st = (st, False)"
  by (auto simp: send_batch_body_def email_key_def Let_def)

lemma body_compose_failed:
  assumes "well_formed row" and "resend \<or> \<not> sb (email_key row)"
    and "build_message env row = Inl e"
  shows "send_batch_body env resend limit sb row st =
          (st\<lparr>ledger := append_sent_record env row [] ''failed'' (str_of e) (ledger st)\<rparr>,
           False)"
  using assms by (auto simp: send_batch_body_def well_formed_def email_key_def Let_def)

lemma body_transport_failed:
  assumes "well_formed row" and "resend \<or> \<not> sb (email_key row)"
    and "build_message env row = Inr (msg, subject, recipients)"
    and "send_message env (transport_calls st) msg recipients = Some e"
  shows "send_batch_body env resend limit sb row st =
          (st\<lparr>transport_calls := transport_calls st @ [(msg, recipients)],
              ledger := append_sent_record env row subject ''failed'' (str_of e) (ledger st)\<rparr>,
           False)"
  using assms by (auto simp: send_batch_body_def well_formed_def email_key_def Let_def)

lemma body_sent:
  assumes "well_formed row" and "resend \<or> \<not> sb (email_key row)"
    and "build_message env row = Inr (msg, subject, recipients)"
    and "send_message env (transport_calls st) msg recipients = None"
  shows "send_batch_body env resend limit sb row st =
          (st\<lparr>transport_calls := transport_calls st @ [(msg, recipients)],
              sent := sent st + 1,
              ledger := append_sent_record env row subject ''success'' [] (ledger st)\<rparr>,
           (case limit of None \<Rightarrow> False | Some l \<Rightarrow> l \<le> int (sent st) + 1))"
  using assms
  by (auto simp: send_batch_body_def well_formed_def email_key_def Let_def split: option.splits)

lemma body_limit_irrelevant:
  "fst (send_batch_body env resend limit sb row st)
   = fst (send_batch_body env resend None sb row st)"
  by (auto simp: send_batch_body_def Let_def split: sum.splits option.splits prod.splits)





lemma loop_skip_invalid:
  "\<not> well_formed row \<Longrightarrow>
     send_batch_loop env resend limit sb (pre @ row # post) st
     = send_batch_loop env resend limit sb (pre @ post) st"
proof (induction pre arbitrary: st)
  case Nil
  then show ?case by (simp add: body_invalid)
next
  case (Cons p pre)
  then show ?case by (simp split: prod.splits)
qed

lemma append_sent_record_fields:
  "\<exists>rec. append_sent_record env row subject status err csv = csv @ [rec]
         \<and> rec ''email'' = Some (Some (email_key row))
         \<and> rec ''subject'' = Some (Some subject)
         \<and> rec ''status'' = Some (Some status)
         \<and> rec ''error'' = Some (Some err)"
  by (simp add: append_sent_record_def email_key_def)

lemma send_batch_runs:
  "missing_credentials env = [] \<Longrightarrow> login env = None \<Longrightarrow>
     send_batch env resend limit rows csv =
       Inr (send_batch_loop env resend limit (already_sent (read_sent_index csv)) rows
              \<lparr>ledger = csv, transport_calls = [], sent = 0\<rparr>)"
  by (simp add: send_batch_def Let_def)

lemma send_batch_Inr:
  "send_batch env resend limit rows csv = Inr st \<Longrightarrow>
     st = send_batch_loop env resend limit (already_sent (read_sent_index csv)) rows
            \<lparr>ledger = csv, transport_calls = [], sent = 0\<rparr>"
  by (auto simp: send_batch_def Let_def split: if_splits option.splits)

lemma demo_credentials: "missing_credentials demo_env = []"
  by code_simp

lemma demo_login: "login demo_env = None"
  by code_simp

text \<open>
  C4. A row whose \<open>email\<close> field is absent, empty after trimming or without an \<open>@\<close>
  is refused by \<open>build_message\<close>; the loop body leaves the ledger, the transport calls
  and the counter as they were and does not stop the loop, so the run is the run of the
  contact list without that row: the rows after it are processed as before.
\<close>

theorem invalid_recipient_passed_over:
  assumes "row ''email'' = None \<or> row ''email'' = Some None
           \<or> strip (get_or row ''email'' []) = []
           \<or> CHR ''@'' \<notin> set (strip (get_or row ''email'' []))"
  shows "build_message env row = Inl (ValueError (''Invalid recipient: '' @ email_key row))
         \<and> send_batch_body env resend limit sb row st = (st, False)
         \<and> send_batch_loop env resend limit sb (pre @ row # post) st
             = send_batch_loop env resend limit sb (pre @ post) st
         \<and> send_batch env resend limit (pre @ row # post) csv
             = send_batch env resend limit (pre @ post) csv"
proof -
  have "strip (get_or row ''email'' []) = []
        \<or> CHR ''@'' \<notin> set (strip (get_or row ''email'' []))"
    using assms get_or_absent [of row "''email''" "[]"] strip_Nil by auto
  then have bad: "\<not> well_formed row" by (auto simp: well_formed_iff)
  have "send_batch env resend limit (pre @ row # post) csv
        = send_batch env resend limit (pre @ post) csv"
    by (simp add: send_batch_def Let_def loop_skip_invalid [OF bad] split: option.splits)
  then show ?thesis
    using bad by (simp add: build_message_invalid body_invalid loop_skip_invalid)
qed

theorem invalid_recipient_passed_over_witness:
  "CHR ''@'' \<notin> set (strip (get_or bad ''email'' []))
   \<and> build_message demo_env bad = Inl (ValueError ''Invalid recipient: bad'')
   \<and> send_batch demo_env False None [ana, bad, bob] []
       = send_batch demo_env False None [ana, bob] []"
proof -
  have h: "CHR ''@'' \<notin> set (strip (get_or bad ''email'' []))" by code_simp
  have k: "email_key bad = ''bad''" by code_simp
  show ?thesis
    using h k invalid_recipient_passed_over [of bad demo_env False None _ _ "[ana]" "[bob]" "[]"]
    by simp
qed

section \<open>Who is dispatched to\<close>

lemma build_message_recipients:
  assumes "build_message env row = Inr (msg, subject, recipients)"
  shows "recipients = email_key row # split_list (get_or row ''cc'' [])
                        @ split_list (get_or row ''bcc'' [])"
  using assms
  by (auto simp: build_message_def email_key_def Let_def split_list_Nil
           split: if_splits sum.splits prod.splits)

lemma body_trace:
  "\<exists>st' new calls.
      send_batch_body env False None sb row st = (st', False)
      \<and> ledger st' = ledger st @ new
      \<and> transport_calls st' = transport_calls st @ calls
      \<and> map (\<lambda>r. r ''email'') new
          = (if eligible sb row then [Some (Some (email_key row))] else [])
      \<and> map (\<lambda>c. hd (snd c)) calls
          = (if eligible sb row \<and> composes env row then [email_key row] else [])"
proof (cases "eligible sb row")
  case False
  then have "send_batch_body env False None sb row st = (st, False)"
    using body_invalid [of row env False None sb st] body_skipped [of False sb row env None st]
    by (auto simp: eligible_def)
  then show ?thesis using False by simp
next
  case True
  then have wf: "well_formed row" and ns: "False \<or> \<not> sb (email_key row)"
    by (simp_all add: eligible_def)
  show ?thesis
  proof (cases "build_message env row")
    case (Inl e)
    obtain rec where rec:
      "append_sent_record env row [] ''failed'' (str_of e) (ledger st) = ledger st @ [rec]"
      "rec ''email'' = Some (Some (email_key row))"
      using append_sent_record_fields by blast
    have "composes env row = False" using Inl by (simp add: composes_def)
    then show ?thesis
      using True rec body_compose_failed [where resend=False and sb=sb and limit=None and st=st, OF wf ns Inl] by simp
  next
    case (Inr t)
    obtain msg subject recipients where t: "t = (msg, subject, recipients)"
      by (cases t)
    have bm: "build_message env row = Inr (msg, subject, recipients)"
      using Inr t by simp
    have hd: "hd recipients = email_key row"
      using build_message_recipients [OF bm] by simp
    have c: "composes env row" using bm by (simp add: composes_def)
    show ?thesis
    proof (cases "send_message env (transport_calls st) msg recipients")
      case None
      obtain rec where rec:
        "append_sent_record env row subject ''success'' [] (ledger st) = ledger st @ [rec]"
        "rec ''email'' = Some (Some (email_key row))"
        using append_sent_record_fields by blast
      show ?thesis
        using True c hd rec body_sent [where resend=False and sb=sb and limit=None and st=st, OF wf ns bm None] by simp
    next
      case (Some e)
      obtain rec where rec:
        "append_sent_record env row subject ''failed'' (str_of e) (ledger st) = ledger st @ [rec]"
        "rec ''email'' = Some (Some (email_key row))"
        using append_sent_record_fields by blast
      show ?thesis
        using True c hd rec body_transport_failed [where resend=False and sb=sb and limit=None and st=st, OF wf ns bm Some] by simp
    qed
  qed
qed

lemma loop_None_trace:
  "\<exists>new calls.
      ledger (send_batch_loop env False None sb rows st) = ledger st @ new
      \<and> transport_calls (send_batch_loop env False None sb rows st) = transport_calls st @ calls
      \<and> map (\<lambda>r. r ''email'') new
          = map (\<lambda>r. Some (Some (email_key r))) (filter (eligible sb) rows)
      \<and> map (\<lambda>c. hd (snd c)) calls
          = map email_key (filter (\<lambda>r. eligible sb r \<and> composes env r) rows)"
proof (induction rows arbitrary: st)
  case Nil
  then show ?case by simp
next
  case (Cons row rows)
  obtain st' new calls where b:
    "send_batch_body env False None sb row st = (st', False)"
    "ledger st' = ledger st @ new"
    "transport_calls st' = transport_calls st @ calls"
    "map (\<lambda>r. r ''email'') new
       = (if eligible sb row then [Some (Some (email_key row))] else [])"
    "map (\<lambda>c. hd (snd c)) calls
       = (if eligible sb row \<and> composes env row then [email_key row] else [])"
    using body_trace [of env sb row st] by blast
  obtain new' calls' where r:
    "ledger (send_batch_loop env False None sb rows st') = ledger st' @ new'"
    "transport_calls (send_batch_loop env False None sb rows st') = transport_calls st' @ calls'"
    "map (\<lambda>r. r ''email'') new'
       = map (\<lambda>r. Some (Some (email_key r))) (filter (eligible sb) rows)"
    "map (\<lambda>c. hd (snd c)) calls'
       = map email_key (filter (\<lambda>r. eligible sb r \<and> composes env r) rows)"
    using Cons.IH [of st'] by blast
  have l: "ledger (send_batch_loop env False None sb (row # rows) st) = ledger st @ (new @ new')"
    using b(1,2) r(1) by simp
  have c: "transport_calls (send_batch_loop env False None sb (row # rows) st)
           = transport_calls st @ (calls @ calls')"
    using b(1,3) r(2) by simp
  have ml: "map (\<lambda>r. r ''email'') (new @ new')
            = map (\<lambda>r. Some (Some (email_key r))) (filter (eligible sb) (row # rows))"
    using b(4) r(3) by simp
  have mc: "map (\<lambda>c. hd (snd c)) (calls @ calls')
            = map email_key (filter (\<lambda>r. eligible sb r \<and> composes env r) (row # rows))"
    using b(5) r(4) by simp
  from l c ml mc show ?case by blast
qed




section \<open>The limit\<close>

lemma body_counter:
  assumes "send_batch_body env resend (Some l) sb row st = (st', stop)"
  shows "(sent st' = sent st \<and> \<not> stop)
         \<or> (sent st' = sent st + 1 \<and> stop = (l \<le> int (sent st) + 1))"
  using assms
  by (auto simp: send_batch_body_def Let_def split: if_splits sum.splits option.splits prod.splits)

text \<open>
  For a limit of at least one, the counter never passes the limit, and a loop that ends
  before the end of the list ends with the counter at the limit. By \<open>loop_take_visited\<close>
  the rows after the last visited one are not processed.
\<close>

lemma send_batch_loop_stops_at_positive_limit:
  assumes "int (sent st) < l"
  shows "int (sent (send_batch_loop env resend (Some l) sb rows st)) \<le> l
         \<and> (rows_visited env resend (Some l) sb rows st < length rows
              \<longrightarrow> int (sent (send_batch_loop env resend (Some l) sb rows st)) = l)"
  using assms
proof (induction rows arbitrary: st)
  case Nil
  then show ?case by simp
next
  case (Cons row rows)
  obtain st' stop where b: "send_batch_body env resend (Some l) sb row st = (st', stop)"
    by (cases "send_batch_body env resend (Some l) sb row st")
  from body_counter [OF b] Cons.prems
  consider (stay) "sent st' = sent st" "\<not> stop"
    | (more) "sent st' = sent st + 1" "\<not> stop" "int (sent st') < l"
    | (full) "int (sent st') = l" "stop"
    by fastforce
  then show ?case
  proof cases
    case stay
    then show ?thesis using b Cons.IH [of st'] Cons.prems by simp
  next
    case more
    then show ?thesis using b Cons.IH [of st'] by simp
  next
    case full
    then show ?thesis using b by simp
  qed
qed

text \<open>
  C3. With \<open>limit=0\<close> and two unsent valid recipients the loop does not end before the
  first send: it sends to \<open>ana\<close>, records the success, and only then finds the limit
  reached. One message goes out where the limit allows none.
\<close>

theorem send_batch_limit_zero_sends_one:
  "(case send_batch demo_env False (Some 0) [ana, bob] [] of
      Inl e \<Rightarrow> False
    | Inr st \<Rightarrow>
        sent st = 1
        \<and> map (\<lambda>r. (r ''email'', r ''status'')) (ledger st)
            = [(Some (Some ''ana@x.org''), Some (Some ''success''))]
        \<and> map snd (transport_calls st) = [[''ana@x.org'']])"
  by code_simp

section \<open>Replaying the ledger\<close>

lemma read_sent_index_acc:
  "foldl (\<lambda>idx row. idx(strip (get_or row ''email'' []) \<mapsto> row)) m csv e
   = (case filter (\<lambda>r. email_key r = e) csv of
        [] \<Rightarrow> m e
      | r # rs \<Rightarrow> Some (last (r # rs)))"
  by (induction csv arbitrary: m) (auto simp: email_key_def split: list.splits)

lemma read_sent_index_last:
  "read_sent_index csv e
   = (case filter (\<lambda>r. email_key r = e) csv of
        [] \<Rightarrow> None
      | r # rs \<Rightarrow> Some (last (r # rs)))"
  by (simp add: read_sent_index_def read_sent_index_acc)

lemma body_dispatch_appends_one:
  assumes "well_formed row" and "\<not> sb (email_key row)"
  shows "\<exists>rec. ledger (fst (send_batch_body env False limit sb row st)) = ledger st @ [rec]
               \<and> rec ''email'' = Some (Some (email_key row))"
proof -
  obtain st' new where b:
    "send_batch_body env False None sb row st = (st', False)"
    "ledger st' = ledger st @ new"
    "map (\<lambda>r. r ''email'') new
       = (if eligible sb row then [Some (Some (email_key row))] else [])"
    using body_trace [of env sb row st] by blast
  have "map (\<lambda>r. r ''email'') new = [Some (Some (email_key row))]"
    using b(3) assms by (simp add: eligible_def)
  then obtain rec where "new = [rec]" "rec ''email'' = Some (Some (email_key row))"
    by (cases new) auto
  moreover have "fst (send_batch_body env False limit sb row st) = st'"
    using body_limit_irrelevant [of env False limit sb row st] b(1) by simp
  ultimately show ?thesis using b(2) by simp
qed

text \<open>
  C2. The index rebuilt from the ledger maps every trimmed address to the last row of
  the file that carries it (and to nothing when no row does). When the rows \<open>s\<close>
  (success) and \<open>f\<close> (failed) for the address \<open>a\<close> were appended in that order, the
  index reports \<open>f\<close> for \<open>a\<close>, \<open>a\<close> does not count as delivered, the loop body of a
  run with \<open>resend=false\<close> appends one ledger event for a contact with that address,
  and a run without limit whose contacts hold such a row appends an event for \<open>a\<close>.
\<close>

theorem ledger_replay_last_write_wins:
  assumes "email_key s = a" and "email_key f = a"
    and "s ''status'' = Some (Some ''success'')" and "f ''status'' = Some (Some ''failed'')"
    and "well_formed row" and "email_key row = a"
    and "send_batch env False None (pre @ row # post) (csv @ [s, f]) = Inr st'"
  shows "read_sent_index csv e
           = (case filter (\<lambda>r. email_key r = e) csv of
                [] \<Rightarrow> None
              | r # rs \<Rightarrow> Some (last (r # rs)))
         \<and> read_sent_index (csv @ [s, f]) a = Some f
         \<and> \<not> already_sent (read_sent_index (csv @ [s, f])) a
         \<and> (\<exists>rec. ledger (fst (send_batch_body env False limit
                                 (already_sent (read_sent_index (csv @ [s, f]))) row st))
                      = ledger st @ [rec]
                    \<and> rec ''email'' = Some (Some a))
         \<and> (\<exists>new. ledger st' = (csv @ [s, f]) @ new
                    \<and> Some (Some a) \<in> set (map (\<lambda>r. r ''email'') new))"
proof -
  let ?sb = "already_sent (read_sent_index (csv @ [s, f]))"
  have idx: "read_sent_index (csv @ [s, f]) a = Some f"
  proof -
    let ?xs = "filter (\<lambda>r. email_key r = a) (csv @ [s, f])"
    have x: "?xs = filter (\<lambda>r. email_key r = a) csv @ [s, f]"
      using assms(1,2) by simp
    have l: "last ?xs = f" unfolding x by simp
    have "?xs \<noteq> []" unfolding x by simp
    then obtain r rs where c: "?xs = r # rs" by (cases ?xs) auto
    have "read_sent_index (csv @ [s, f]) a = Some (last (r # rs))"
      unfolding read_sent_index_last c by simp
    moreover have "last (r # rs) = f" using l unfolding c .
    ultimately show ?thesis by simp
  qed
  have unsent: "\<not> ?sb a"
    using idx assms(4) by (simp add: already_sent_def)
  have body: "\<exists>rec. ledger (fst (send_batch_body env False limit ?sb row st)) = ledger st @ [rec]
                    \<and> rec ''email'' = Some (Some a)"
    using body_dispatch_appends_one [of row ?sb env limit st] assms(5,6) unsent by simp
  have el: "eligible ?sb row"
    using assms(5,6) unsent by (simp add: eligible_def)
  have "st' = send_batch_loop env False None ?sb (pre @ row # post)
                \<lparr>ledger = csv @ [s, f], transport_calls = [], sent = 0\<rparr>"
    using assms(7) by (rule send_batch_Inr)
  then obtain new where n:
    "ledger st' = (csv @ [s, f]) @ new"
    "map (\<lambda>r. r ''email'') new
       = map (\<lambda>r. Some (Some (email_key r))) (filter (eligible ?sb) (pre @ row # post))"
    using loop_None_trace [of env ?sb "pre @ row # post"
        "\<lparr>ledger = csv @ [s, f], transport_calls = [], sent = 0\<rparr>"]
    by auto
  have "Some (Some a) \<in> set (map (\<lambda>r. r ''email'') new)"
    unfolding n(2) using el assms(6) by auto
  then have run: "\<exists>new. ledger st' = (csv @ [s, f]) @ new
                         \<and> Some (Some a) \<in> set (map (\<lambda>r. r ''email'') new)"
    using n(1) by blast
  from read_sent_index_last idx unsent body run show ?thesis by (intro conjI)
qed

theorem ledger_replay_last_write_wins_witness:
  "map_option (\<lambda>r. r ''status'') (read_sent_index retry_ledger ''ana@x.org'')
     = Some (Some (Some ''failed''))
   \<and> \<not> already_sent (read_sent_index retry_ledger) ''ana@x.org''
   \<and> (\<exists>st new. send_batch demo_env False None [bad, ana, bob] retry_ledger = Inr st
                 \<and> ledger st = retry_ledger @ new
                 \<and> Some (Some ''ana@x.org'') \<in> set (map (\<lambda>r. r ''email'') new))"
proof -
  let ?s = "event ''ana@x.org'' ''success''"
  let ?f = "event ''ana@x.org'' ''failed''"
  let ?st = "send_batch_loop demo_env False None (already_sent (read_sent_index ([] @ [?s, ?f])))
               ([bad] @ ana # [bob])
               \<lparr>ledger = [] @ [?s, ?f], transport_calls = [], sent = 0\<rparr>"
  have h1: "email_key ?s = ''ana@x.org''" by code_simp
  have h2: "email_key ?f = ''ana@x.org''" by code_simp
  have h3: "?s ''status'' = Some (Some ''success'')" by code_simp
  have h4: "?f ''status'' = Some (Some ''failed'')" by code_simp
  have h5: "well_formed ana" by code_simp
  have h6: "email_key ana = ''ana@x.org''" by code_simp
  have h7: "send_batch demo_env False None ([bad] @ ana # [bob]) ([] @ [?s, ?f]) = Inr ?st"
    by (rule send_batch_runs [OF demo_credentials demo_login])
  have r: "retry_ledger = [] @ [?s, ?f]" by (simp add: retry_ledger_def)
  have c: "[bad, ana, bob] = [bad] @ ana # [bob]" by simp
  note t = ledger_replay_last_write_wins
             [where limit = None and st = fresh_run and e = "''ana@x.org''",
              OF h1 h2 h3 h4 h5 h6 h7]
  have "read_sent_index retry_ledger ''ana@x.org'' = Some ?f"
    using t unfolding r by blast
  then have a: "map_option (\<lambda>r. r ''status'') (read_sent_index retry_ledger ''ana@x.org'')
                 = Some (Some (Some ''failed''))"
    using h4 by simp
  have b: "\<not> already_sent (read_sent_index retry_ledger) ''ana@x.org''"
    using t unfolding r by blast
  have "\<exists>new. ledger ?st = retry_ledger @ new
              \<and> Some (Some ''ana@x.org'') \<in> set (map (\<lambda>r. r ''email'') new)"
    using t unfolding r by blast
  then have "\<exists>st new. send_batch demo_env False None [bad, ana, bob] retry_ledger = Inr st
                 \<and> ledger st = retry_ledger @ new
                 \<and> Some (Some ''ana@x.org'') \<in> set (map (\<lambda>r. r ''email'') new)"
    using h7 unfolding r c by blast
  with a b show ?thesis by blast
qed

section \<open>Failed attempts\<close>






section \<open>The default language\<close>

lemma lower_strip_en: "lower (strip ''en'') = ''en''"
  by code_simp

lemma lower_Nil: "lower [] = []"
  by (simp add: lower_def)

lemma get_or_default: "get_or r k [] = [] \<Longrightarrow> get_or r k d = d"
  by (auto simp: get_or_def split: option.splits if_splits)

lemma template_paths_blank: "template_paths env [] row = template_paths env ''en'' row"
  by (simp add: template_paths_def)

lemma load_templates_blank: "load_templates env [] row = load_templates env ''en'' row"
  by (simp add: load_templates_def template_paths_blank)

lemma blank_lang_cases:
  assumes "row ''lang'' = None \<or> row ''lang'' = Some None
           \<or> (\<exists>v. row ''lang'' = Some (Some v) \<and> strip v = [])"
  shows "lower (strip (get_or row ''lang'' ''en'')) = []
         \<or> lower (strip (get_or row ''lang'' ''en'')) = ''en''"
  using assms by (auto simp: get_or_def lower_strip_en lower_Nil)

text \<open>
  C6. For a recipient whose \<open>lang\<close> field is absent, empty or made of white space only,
  the language that \<open>build_message\<close> passes on (line 164) makes \<open>load_templates\<close>
  resolve exactly what it resolves for \<open>en\<close>: the same language, the same three paths,
  the same templates or the same error. The language is \<open>en\<close>, and a path without an
  override in the row is the trimmed join of the template root, \<open>en\<close> and the file
  name of its kind.
\<close>

theorem blank_language_defaults_to_en:
  assumes "row ''lang'' = None \<or> row ''lang'' = Some None
           \<or> (\<exists>v. row ''lang'' = Some (Some v) \<and> strip v = [])"
  shows "template_paths env (lower (strip (get_or row ''lang'' ''en''))) row
           = template_paths env ''en'' row
         \<and> load_templates env (lower (strip (get_or row ''lang'' ''en''))) row
           = load_templates env ''en'' row
         \<and> fst (template_paths env ''en'' row) = ''en''
         \<and> (get_or row ''subject_file'' [] = [] \<longrightarrow>
              fst (snd (template_paths env ''en'' row))
              = strip (path_join (path_join (TEMPLATE_ROOT env) ''en'') ''subject.txt''))
         \<and> (get_or row ''body_file'' [] = [] \<longrightarrow>
              fst (snd (snd (template_paths env ''en'' row)))
              = strip (path_join (path_join (TEMPLATE_ROOT env) ''en'') ''body.txt''))
         \<and> (get_or row ''body_html_file'' [] = [] \<longrightarrow>
              snd (snd (snd (template_paths env ''en'' row)))
              = strip (path_join (path_join (TEMPLATE_ROOT env) ''en'') ''body.html''))"
proof -
  from blank_lang_cases [where row = row, OF assms]
  have p: "template_paths env (lower (strip (get_or row ''lang'' ''en''))) row
           = template_paths env ''en'' row"
    by (auto simp: template_paths_blank)
  from blank_lang_cases [where row = row, OF assms]
  have l: "load_templates env (lower (strip (get_or row ''lang'' ''en''))) row
           = load_templates env ''en'' row"
    by (auto simp: load_templates_blank)
  have e: "fst (template_paths env ''en'' row) = ''en''"
    by (simp add: template_paths_def Let_def lower_strip_en)
  have s: "get_or row ''subject_file'' [] = [] \<longrightarrow>
              fst (snd (template_paths env ''en'' row))
              = strip (path_join (path_join (TEMPLATE_ROOT env) ''en'') ''subject.txt'')"
    by (simp add: template_paths_def Let_def lower_strip_en get_or_default)
  have b: "get_or row ''body_file'' [] = [] \<longrightarrow>
              fst (snd (snd (template_paths env ''en'' row)))
              = strip (path_join (path_join (TEMPLATE_ROOT env) ''en'') ''body.txt'')"
    by (simp add: template_paths_def Let_def lower_strip_en get_or_default)
  have h: "get_or row ''body_html_file'' [] = [] \<longrightarrow>
              snd (snd (snd (template_paths env ''en'' row)))
              = strip (path_join (path_join (TEMPLATE_ROOT env) ''en'') ''body.html'')"
    by (simp add: template_paths_def Let_def lower_strip_en get_or_default)
  from p l e s b h show ?thesis by (intro conjI)
qed

theorem blank_language_defaults_to_en_witness:
  "bob ''lang'' = Some (Some ''  '')
   \<and> get_or bob ''subject_file'' [] = []
   \<and> get_or bob ''body_file'' [] = []
   \<and> get_or bob ''body_html_file'' [] = []
   \<and> template_paths demo_env (lower (strip (get_or bob ''lang'' ''en''))) bob
       = (''en'', ''templates/en/subject.txt'', ''templates/en/body.txt'',
          ''templates/en/body.html'')"
proof -
  have v: "bob ''lang'' = Some (Some ''  '')" by (simp add: bob_def)
  have w: "strip ''  '' = []" by code_simp
  have h: "bob ''lang'' = None \<or> bob ''lang'' = Some None
           \<or> (\<exists>v. bob ''lang'' = Some (Some v) \<and> strip v = [])"
    using v w by simp
  have o: "get_or bob ''subject_file'' [] = []" "get_or bob ''body_file'' [] = []"
    "get_or bob ''body_html_file'' [] = []"
    by code_simp+
  have j: "strip (path_join (path_join (TEMPLATE_ROOT demo_env) ''en'') ''subject.txt'')
             = ''templates/en/subject.txt''"
    "strip (path_join (path_join (TEMPLATE_ROOT demo_env) ''en'') ''body.txt'')
             = ''templates/en/body.txt''"
    "strip (path_join (path_join (TEMPLATE_ROOT demo_env) ''en'') ''body.html'')
             = ''templates/en/body.html''"
    by code_simp+
  have "template_paths demo_env (lower (strip (get_or bob ''lang'' ''en''))) bob
        = (''en'', ''templates/en/subject.txt'', ''templates/en/body.txt'',
           ''templates/en/body.html'')"
    using blank_language_defaults_to_en [where row = bob and env = demo_env, OF h] o j
    by (simp add: prod_eq_iff)
  then show ?thesis using v o by simp
qed

section \<open>The fallback directory\<close>




section \<open>Blind copies\<close>

lemma lower_Bcc: "lower ''Bcc'' = ''bcc''"
  by code_simp

lemma del_header_absent:
  "lower name \<notin> set (map (\<lambda>h. lower (fst h)) (headers (del_header msg name)))"
  by (auto simp: del_header_def)

lemma build_message_bcc_deleted:
  assumes "build_message env row = Inr (msg, subject, recipients)"
    and "get_or row ''bcc'' [] \<noteq> []"
  shows "\<exists>m. msg = del_header m ''Bcc''"
  using assms
  by (auto simp: build_message_def Let_def split: if_splits sum.splits prod.splits)

text \<open>
  C9. For a recipient with a non-empty \<open>bcc\<close> field, the message that
  \<open>build_message\<close> returns has no header named \<open>Bcc\<close> (in any letter case), and the
  recipient list it returns is the trimmed address of the recipient, then the trimmed
  non-empty entries of \<open>cc\<close>, then the trimmed non-empty entries of \<open>bcc\<close>.
\<close>

theorem bcc_stripped_from_headers_kept_in_recipients:
  assumes "build_message env row = Inr (msg, subject, recipients)"
    and "get_or row ''bcc'' [] \<noteq> []"
  shows "''bcc'' \<notin> set (map (\<lambda>h. lower (fst h)) (headers msg))
         \<and> recipients = email_key row # split_list (get_or row ''cc'' [])
                           @ split_list (get_or row ''bcc'' [])"
proof -
  obtain m where "msg = del_header m ''Bcc''"
    using build_message_bcc_deleted [OF assms] by blast
  then have "''bcc'' \<notin> set (map (\<lambda>h. lower (fst h)) (headers msg))"
    using del_header_absent [of "''Bcc''" m] by (simp add: lower_Bcc)
  then show ?thesis using build_message_recipients [OF assms(1)] by simp
qed

theorem bcc_stripped_from_headers_kept_in_recipients_witness:
  "\<exists>msg. build_message demo_env bob
           = Inr (msg, ''Hello'',
                  [''bob@x.org'', ''team@x.org'', ''boss@x.org'', ''audit@x.org''])
         \<and> ''bcc'' \<notin> set (map (\<lambda>h. lower (fst h)) (headers msg))"
proof -
  have "(case build_message demo_env bob of
           Inl e \<Rightarrow> None
         | Inr (m, s, r) \<Rightarrow> Some (s, r))
        = Some (''Hello'', [''bob@x.org'', ''team@x.org'', ''boss@x.org'', ''audit@x.org''])"
    by code_simp
  then obtain msg where bm:
    "build_message demo_env bob
     = Inr (msg, ''Hello'', [''bob@x.org'', ''team@x.org'', ''boss@x.org'', ''audit@x.org''])"
    by (auto split: sum.splits prod.splits)
  have nb: "get_or bob ''bcc'' [] \<noteq> []" by code_simp
  show ?thesis
    using bcc_stripped_from_headers_kept_in_recipients [OF bm nb] bm by blast
qed

end
